theory Spec2Isabelle
  imports Main "HOL-Library.AList"
begin

section \<open>Errors (queue/errors.go)\<close>

text \<open>
  The two error values of the package. A Go \<^verbatim>\<open>error\<close> result is modelled as
  \<open>error option\<close>, \<open>None\<close> being \<^verbatim>\<open>nil\<close>.
\<close>

datatype error = ErrNoMessage | ErrTooManyItems

text \<open>
  What can go wrong inside the worker goroutine beyond returning an error value:
  \<open>Panic\<close> is the nil dereference of \<^verbatim>\<open>list.Remove(list.Front())\<close> on an empty list,
  \<open>Blocked\<close> is a send on a buffered channel whose buffer is full (the worker would
  never get past it).
\<close>

datatype fault = Panic | Blocked

section \<open>Buffered channels\<close>

text \<open>
  A buffered channel is the list of the values it holds, oldest first.
  \<open>chan_send cap ch v\<close> is \<^verbatim>\<open>ch <- v\<close> on a channel made with capacity \<open>cap\<close>.
\<close>

definition chan_send :: "nat \<Rightarrow> 'a list \<Rightarrow> 'a \<Rightarrow> fault + 'a list" where
  "chan_send cap ch v = (if length ch < cap then Inr (ch @ [v]) else Inl Blocked)"

section \<open>listAdapter (queue/queue.go)\<close>

text \<open>
  \<^verbatim>\<open>listAdapter[T]\<close> wraps a doubly linked list; its contents are a HOL list, front
  first. \<^verbatim>\<open>Pop\<close> on an empty list dereferences the nil front element.
\<close>

definition Push :: "'a \<Rightarrow> 'a list \<Rightarrow> 'a list" where
  "Push v xs = xs @ [v]"

definition Pop :: "'a list \<Rightarrow> fault + ('a \<times> 'a list)" where
  "Pop xs = (case xs of [] \<Rightarrow> Inl Panic | x # rest \<Rightarrow> Inr (x, rest))"

definition Empty :: "'a list \<Rightarrow> bool" where
  "Empty xs = (length xs = 0)"

definition Len :: "'a list \<Rightarrow> int" where
  "Len xs = int (length xs)"

section \<open>The queue engine (queue/queue.go)\<close>

text \<open>
  \<^verbatim>\<open>getWaitStatus\<close>: three channels of capacity 1. A wait status lives on the heap and
  is shared by the \<^verbatim>\<open>Get\<close> call that made it and the worker; it is named by its address,
  a natural number. The list element that \<^verbatim>\<open>Push\<close> creates for a wait status carries
  exactly that wait status as its value, so the element handle is modelled by the same
  address.
\<close>

record getWaitStatus =
  msgCh :: "string list"
  createdElemCh :: "nat list"
  errCh :: "error list"

definition newGetWaitStatus :: getWaitStatus where
  "newGetWaitStatus = \<lparr>msgCh = [], createdElemCh = [], errCh = []\<rparr>"

record messageWithConfirmation =
  message :: string
  confirmation :: "error option list"

definition newMessageWithConfirmation :: "string \<Rightarrow> messageWithConfirmation" where
  "newMessageWithConfirmation m = \<lparr>message = m, confirmation = []\<rparr>"

text \<open>
  \<^verbatim>\<open>queueImpl\<close>, as seen by its worker goroutine. \<open>messages\<close> and \<open>getWaitStatuses\<close>
  are the two lists of the struct; \<open>waitObjs\<close> is the store of wait status objects the
  elements of \<open>getWaitStatuses\<close> point to, and \<open>nextObj\<close> the next address the allocator
  hands out. The unbuffered channels of the struct carry the events of \<open>dispatch\<close> and
  hold no state.
\<close>

record queueImpl =
  messages :: "string list"
  maxMessageNum :: int
  getWaitStatuses :: "nat list"
  waitObjs :: "nat \<Rightarrow> getWaitStatus"
  nextObj :: nat

definition newQueueImpl :: "int \<Rightarrow> queueImpl" where
  "newQueueImpl n =
     \<lparr>messages = [], maxMessageNum = n, getWaitStatuses = [],
      waitObjs = (\<lambda>_. newGetWaitStatus), nextObj = 0\<rparr>"

text \<open>
  \<^verbatim>\<open>deliverMessages\<close>: while neither list is empty, pop the oldest waiter, pop the
  oldest message, and send the message on the waiter's \<^verbatim>\<open>msgCh\<close>. Go evaluates the
  channel operand (the waiter's \<^verbatim>\<open>Pop\<close>) before the value operand.
\<close>

function deliverMessages :: "queueImpl \<Rightarrow> fault + queueImpl" where
  "deliverMessages q =
     (if \<not> (Empty (getWaitStatuses q) \<or> Empty (messages q)) then
        (case Pop (getWaitStatuses q) of
           Inl f \<Rightarrow> Inl f
         | Inr (w, ws) \<Rightarrow>
             (case Pop (messages q) of
                Inl f \<Rightarrow> Inl f
              | Inr (m, ms) \<Rightarrow>
                  (case chan_send 1 (msgCh (waitObjs q w)) m of
                     Inl f \<Rightarrow> Inl f
                   | Inr ch \<Rightarrow>
                       deliverMessages
                         (q\<lparr>getWaitStatuses := ws, messages := ms,
                            waitObjs := (waitObjs q)(w := (waitObjs q w)\<lparr>msgCh := ch\<rparr>)\<rparr>))))
      else Inr q)"
  by pat_completeness auto
termination
  by (relation "measure (\<lambda>q. length (getWaitStatuses q))")
     (auto simp: Pop_def split: list.splits)

text \<open>
  The cases of the \<^verbatim>\<open>select\<close> in \<^verbatim>\<open>dispatch\<close>, one function each.
  \<open>onMessage\<close> is the case \<^verbatim>\<open>newMsg := <-q.messageCh\<close>; it returns the message
  object with its confirmation channel written.
\<close>

definition onMessage ::
  "messageWithConfirmation \<Rightarrow> queueImpl \<Rightarrow> fault + (messageWithConfirmation \<times> queueImpl)" where
  "onMessage newMsg q =
     (let (err, q1) =
            (if Len (messages q) \<ge> maxMessageNum q then (Some ErrTooManyItems, q)
             else (None, q\<lparr>messages := Push (message newMsg) (messages q)\<rparr>))
      in case chan_send 1 (confirmation newMsg) err of
           Inl f \<Rightarrow> Inl f
         | Inr c \<Rightarrow>
             (case deliverMessages q1 of
                Inl f \<Rightarrow> Inl f
              | Inr q2 \<Rightarrow> Inr (newMsg\<lparr>confirmation := c\<rparr>, q2)))"

text \<open>The case \<^verbatim>\<open>waitStatus := <-q.getWaitStatusCh\<close>.\<close>

definition onWaitStatus :: "nat \<Rightarrow> queueImpl \<Rightarrow> fault + queueImpl" where
  "onWaitStatus waitStatus q =
     (let q1 = q\<lparr>getWaitStatuses := Push waitStatus (getWaitStatuses q)\<rparr>;
          createdElem = waitStatus
      in case chan_send 1 (createdElemCh (waitObjs q1 waitStatus)) createdElem of
           Inl f \<Rightarrow> Inl f
         | Inr c \<Rightarrow>
             deliverMessages
               (q1\<lparr>waitObjs := (waitObjs q1)
                      (waitStatus := (waitObjs q1 waitStatus)\<lparr>createdElemCh := c\<rparr>)\<rparr>))"

text \<open>
  The case \<^verbatim>\<open>elem := <-q.expiredGetElementsCh\<close>. \<^verbatim>\<open>list.Remove\<close> unlinks the element
  if it is still in the list and does nothing otherwise.
\<close>

definition onExpired :: "nat \<Rightarrow> queueImpl \<Rightarrow> fault + queueImpl" where
  "onExpired elem q =
     (let ws = elem
      in case chan_send 1 (errCh (waitObjs q ws)) ErrNoMessage of
           Inl f \<Rightarrow> Inl f
         | Inr c \<Rightarrow>
             Inr (q\<lparr>waitObjs := (waitObjs q)(ws := (waitObjs q ws)\<lparr>errCh := c\<rparr>),
                    getWaitStatuses := remove1 elem (getWaitStatuses q)\<rparr>))"

text \<open>
  \<^verbatim>\<open>dispatch\<close>: the worker loop. The events are what its \<^verbatim>\<open>select\<close> receives, in
  the order it receives them; \<open>DoneClosed\<close> is the closed \<^verbatim>\<open>done\<close> channel, at which the
  loop returns.
\<close>

datatype event =
    DoneClosed
  | NewMsg messageWithConfirmation
  | NewWaitStatus nat
  | ExpiredElem nat

fun dispatch :: "event list \<Rightarrow> queueImpl \<Rightarrow> fault + queueImpl" where
  "dispatch [] q = Inr q"
| "dispatch (DoneClosed # es) q = Inr q"
| "dispatch (NewMsg newMsg # es) q =
     (case onMessage newMsg q of Inl f \<Rightarrow> Inl f | Inr (c, q') \<Rightarrow> dispatch es q')"
| "dispatch (NewWaitStatus waitStatus # es) q =
     (case onWaitStatus waitStatus q of Inl f \<Rightarrow> Inl f | Inr q' \<Rightarrow> dispatch es q')"
| "dispatch (ExpiredElem elem # es) q =
     (case onExpired elem q of Inl f \<Rightarrow> Inl f | Inr q' \<Rightarrow> dispatch es q')"

subsection \<open>The callers' side: Put and Get\<close>

text \<open>
  \<^verbatim>\<open>queueImpl.Put\<close>: make the message object, hand it to the worker, return what the
  worker wrote on the confirmation channel. The hand-over is a rendezvous on an
  unbuffered channel, so the worker's handling of the event is the next thing that
  happens to the queue.
\<close>

definition queueImpl_Put :: "string \<Rightarrow> queueImpl \<Rightarrow> fault + (error option \<times> queueImpl)" where
  "queueImpl_Put m q =
     (let msg = newMessageWithConfirmation m
      in case onMessage msg q of
           Inl f \<Rightarrow> Inl f
         | Inr (msg', q') \<Rightarrow>
             (case confirmation msg' of [] \<Rightarrow> Inl Blocked | e # _ \<Rightarrow> Inr (e, q')))"

text \<open>
  \<^verbatim>\<open>queueImpl.Get\<close> has three parts. \<open>Get_send\<close> is its first two lines: allocate a
  wait status and hand it to the worker. \<open>Get_expire\<close> is the body of the goroutine
  after \<^verbatim>\<open><-ctx.Done()\<close> has returned: take the element handle from
  \<^verbatim>\<open>createdElemCh\<close> (while that channel is empty the goroutine waits and nothing
  happens) and hand it to the worker as expired. \<open>Get_select\<close> is the final
  \<^verbatim>\<open>select\<close>: the list of results it can return in the given state, one for each
  channel that is ready; Go chooses among ready cases at random, and the empty list
  means the call is still waiting.
\<close>

definition Get_send :: "queueImpl \<Rightarrow> fault + (nat \<times> queueImpl)" where
  "Get_send q =
     (let ws = nextObj q;
          q1 = q\<lparr>waitObjs := (waitObjs q)(ws := newGetWaitStatus), nextObj := Suc ws\<rparr>
      in case onWaitStatus ws q1 of Inl f \<Rightarrow> Inl f | Inr q2 \<Rightarrow> Inr (ws, q2))"

definition Get_expire :: "nat \<Rightarrow> queueImpl \<Rightarrow> fault + queueImpl" where
  "Get_expire ws q =
     (case createdElemCh (waitObjs q ws) of
        [] \<Rightarrow> Inr q
      | expiredGetElem # rest \<Rightarrow>
          onExpired expiredGetElem
            (q\<lparr>waitObjs := (waitObjs q)(ws := (waitObjs q ws)\<lparr>createdElemCh := rest\<rparr>)\<rparr>))"

definition Get_select :: "nat \<Rightarrow> queueImpl \<Rightarrow> (string \<times> error option) list" where
  "Get_select ws q =
     (case msgCh (waitObjs q ws) of [] \<Rightarrow> [] | res # _ \<Rightarrow> [(res, None)]) @
     (case errCh (waitObjs q ws) of [] \<Rightarrow> [] | err # _ \<Rightarrow> [([], Some err)])"

text \<open>
  A whole \<^verbatim>\<open>Get(ctx)\<close> call on a queue that nobody else is using meanwhile.
  \<open>ctx_done\<close> says whether \<^verbatim>\<open>ctx.Done()\<close> is already closed when the call is made.
  If it is, the goroutine runs through at once and the worker may have handled the
  expiry by the time the \<^verbatim>\<open>select\<close> looks at the channels: the results listed are
  those of the \<^verbatim>\<open>select\<close> after the expiry, which include those before it. If it is
  not, the \<^verbatim>\<open>select\<close> runs on the state the registration left. The result carries the
  address of the wait status, for the expiry that may follow the call.
\<close>

definition queueImpl_Get ::
  "bool \<Rightarrow> queueImpl \<Rightarrow> fault + ((string \<times> error option) list \<times> nat \<times> queueImpl)" where
  "queueImpl_Get ctx_done q =
     (case Get_send q of
        Inl f \<Rightarrow> Inl f
      | Inr (ws, q1) \<Rightarrow>
          (if ctx_done then
             (case Get_expire ws q1 of
                Inl f \<Rightarrow> Inl f
              | Inr q2 \<Rightarrow> Inr (Get_select ws q2, ws, q2))
           else Inr (Get_select ws q1, ws, q1)))"

text \<open>Sequences of calls by one caller: \<open>Puts\<close> returns the confirmations in order.\<close>

fun Puts :: "string list \<Rightarrow> queueImpl \<Rightarrow> fault + (error option list \<times> queueImpl)" where
  "Puts [] q = Inr ([], q)"
| "Puts (m # ms) q =
     (case queueImpl_Put m q of
        Inl f \<Rightarrow> Inl f
      | Inr (e, q1) \<Rightarrow>
          (case Puts ms q1 of Inl f \<Rightarrow> Inl f | Inr (es, q2) \<Rightarrow> Inr (e # es, q2)))"


text \<open>
  Everything callers can make the worker do, in any order: a \<^verbatim>\<open>Put\<close>, the
  registration of a \<^verbatim>\<open>Get\<close>, and the firing of the context of the \<^verbatim>\<open>Get\<close> that owns
  a given wait status.
\<close>

datatype action = DoPut string | DoGet | DoCtxDone nat

fun perform :: "action \<Rightarrow> queueImpl \<Rightarrow> fault + queueImpl" where
  "perform (DoPut m) q =
     (case queueImpl_Put m q of Inl f \<Rightarrow> Inl f | Inr (e, q') \<Rightarrow> Inr q')"
| "perform DoGet q =
     (case Get_send q of Inl f \<Rightarrow> Inl f | Inr (ws, q') \<Rightarrow> Inr q')"
| "perform (DoCtxDone ws) q = Get_expire ws q"

fun run :: "action list \<Rightarrow> queueImpl \<Rightarrow> fault + queueImpl" where
  "run [] q = Inr q"
| "run (a # as) q =
     (case perform a q of Inl f \<Rightarrow> Inl f | Inr q' \<Rightarrow> run as q')"

section \<open>The queue registry (queue/manager.go)\<close>

record QueueManagerConfig =
  MaxQueueNum :: int
  MaxMessageNumPerQueue :: int

text \<open>
  \<^verbatim>\<open>queueManagerImpl\<close>. The Go map from names to queue pointers is an association
  list from names to engine addresses, looked up with \<open>map_of\<close> and stored into with
  \<open>AList.update\<close>; \<open>engines\<close> is the store of the queue objects and \<open>nextEngine\<close> the
  next address the factory returns. The factory is \<^verbatim>\<open>newQueue\<close>. The registry
  operations below are those of one caller at a time, so the second look-up under the
  write lock sees what the first one saw.
\<close>

record queueManagerImpl =
  config :: QueueManagerConfig
  queues :: "(string \<times> nat) list"
  engines :: "nat \<Rightarrow> queueImpl"
  nextEngine :: nat

definition newQueueManager :: "QueueManagerConfig \<Rightarrow> queueManagerImpl" where
  "newQueueManager cfg =
     \<lparr>config = cfg, queues = [], engines = (\<lambda>_. newQueueImpl 0), nextEngine = 0\<rparr>"

definition forwardPut ::
  "nat \<Rightarrow> string \<Rightarrow> queueManagerImpl \<Rightarrow> fault + (error option \<times> queueManagerImpl)" where
  "forwardPut foundQueue m r =
     (case queueImpl_Put m (engines r foundQueue) of
        Inl f \<Rightarrow> Inl f
      | Inr (e, q') \<Rightarrow> Inr (e, r\<lparr>engines := (engines r)(foundQueue := q')\<rparr>))"

definition queueManagerImpl_Put ::
  "string \<Rightarrow> string \<Rightarrow> queueManagerImpl \<Rightarrow> fault + (error option \<times> queueManagerImpl)" where
  "queueManagerImpl_Put name m r =
     (case map_of (queues r) name of
        Some foundQueue \<Rightarrow> forwardPut foundQueue m r
      | None \<Rightarrow>
          (case map_of (queues r) name of
             Some foundQueue \<Rightarrow> forwardPut foundQueue m r
           | None \<Rightarrow>
               (if int (length (queues r)) \<ge> MaxQueueNum (config r)
                then Inr (Some ErrTooManyItems, r)
                else
                  (let foundQueue = nextEngine r
                   in forwardPut foundQueue m
                        (r\<lparr>engines := (engines r)
                               (foundQueue := newQueueImpl (MaxMessageNumPerQueue (config r))),
                           nextEngine := Suc foundQueue,
                           queues := AList.update name foundQueue (queues r)\<rparr>)))))"

text \<open>
  \<^verbatim>\<open>time.Duration(timeout)*time.Second\<close> is a 64-bit signed product;
  \<^verbatim>\<open>context.WithTimeout\<close> with a duration that is not positive returns a context that
  is already done.
\<close>

definition timeoutDuration :: "int \<Rightarrow> int" where
  "timeoutDuration timeout =
     (timeout * 1000000000 + 9223372036854775808) mod 18446744073709551616
       - 9223372036854775808"

text \<open>
  \<^verbatim>\<open>queueManagerImpl.Get\<close>, again for one caller with nothing else happening to the
  queue meanwhile. The context handed to the queue is done at the call if the caller's
  is or if the timeout is not positive. Otherwise a \<^verbatim>\<open>select\<close> that finds nothing
  ready waits until the deadline fires and the worker has handled the expiry; and when
  the call returns, the deferred \<^verbatim>\<open>cancel\<close> fires the context if it has not fired yet. In
  each case the expiry goroutine of the call runs exactly once.
\<close>

definition queueManagerImpl_Get ::
  "bool \<Rightarrow> string \<Rightarrow> int \<Rightarrow> queueManagerImpl
     \<Rightarrow> fault + ((string \<times> error option) list \<times> queueManagerImpl)" where
  "queueManagerImpl_Get ctx_done name timeout r =
     (case map_of (queues r) name of
        None \<Rightarrow> Inr ([([], Some ErrNoMessage)], r)
      | Some foundQueue \<Rightarrow>
          (case queueImpl_Get (ctx_done \<or> timeoutDuration timeout \<le> 0) (engines r foundQueue) of
             Inl f \<Rightarrow> Inl f
           | Inr (res, ws, q1) \<Rightarrow>
               (case Get_expire ws q1 of
                  Inl f \<Rightarrow> Inl f
                | Inr q2 \<Rightarrow>
                    Inr (if res = [] then Get_select ws q2 else res,
                         r\<lparr>engines := (engines r)(foundQueue := q2)\<rparr>))))"

datatype request = ReqPut string string | ReqGet bool string int

fun serve :: "request \<Rightarrow> queueManagerImpl \<Rightarrow> fault + queueManagerImpl" where
  "serve (ReqPut name m) r =
     (case queueManagerImpl_Put name m r of Inl f \<Rightarrow> Inl f | Inr (e, r') \<Rightarrow> Inr r')"
| "serve (ReqGet ctx_done name timeout) r =
     (case queueManagerImpl_Get ctx_done name timeout r of
        Inl f \<Rightarrow> Inl f
      | Inr (res, r') \<Rightarrow> Inr r')"

fun serve_all :: "request list \<Rightarrow> queueManagerImpl \<Rightarrow> fault + queueManagerImpl" where
  "serve_all [] r = Inr r"
| "serve_all (x # xs) r =
     (case serve x r of Inl f \<Rightarrow> Inl f | Inr r' \<Rightarrow> serve_all xs r')"

section \<open>The invariant of the worker\<close>

text \<open>
  What holds of a queue between two events, however callers use it: one of the two
  lists is empty; the waiters in the list are distinct, were handed out by the
  allocator, and have nothing on their \<^verbatim>\<open>msgCh\<close> yet; and a wait status whose element
  handle has not been taken from \<^verbatim>\<open>createdElemCh\<close> holds its own handle there and has
  nothing on its \<^verbatim>\<open>errCh\<close>.
\<close>

definition qinv :: "queueImpl \<Rightarrow> bool" where
  "qinv q \<longleftrightarrow>
     (messages q = [] \<or> getWaitStatuses q = []) \<and>
     distinct (getWaitStatuses q) \<and>
     (\<forall>w \<in> set (getWaitStatuses q). w < nextObj q \<and> msgCh (waitObjs q w) = []) \<and>
     (\<forall>w. createdElemCh (waitObjs q w) \<noteq> [] \<longrightarrow>
            createdElemCh (waitObjs q w) = [w] \<and> errCh (waitObjs q w) = [])"

section \<open>The delivery loop\<close>

declare deliverMessages.simps [simp del]

lemma deliverMessages_no_messages: "messages q = [] \<Longrightarrow> deliverMessages q = Inr q"
  by (subst deliverMessages.simps) (simp add: Empty_def)

lemma deliverMessages_no_waiters: "getWaitStatuses q = [] \<Longrightarrow> deliverMessages q = Inr q"
  by (subst deliverMessages.simps) (simp add: Empty_def)

lemma deliverMessages_step:
  assumes "getWaitStatuses q = w # ws" and "messages q = m # ms"
  shows "deliverMessages q =
     (case chan_send 1 (msgCh (waitObjs q w)) m of
        Inl f \<Rightarrow> Inl f
      | Inr ch \<Rightarrow>
          deliverMessages
            (q\<lparr>getWaitStatuses := ws, messages := ms,
               waitObjs := (waitObjs q)(w := (waitObjs q w)\<lparr>msgCh := ch\<rparr>)\<rparr>))"
  using assms by (subst deliverMessages.simps) (simp add: Empty_def Pop_def)

lemma deliverMessages_one_empty:
  "deliverMessages q = Inr q' \<Longrightarrow> messages q' = [] \<or> getWaitStatuses q' = []"
proof (induction q rule: deliverMessages.induct)
  case (1 q)
  show ?case
  proof (cases "Empty (getWaitStatuses q) \<or> Empty (messages q)")
    case True
    with "1.prems" have "q' = q" by (subst (asm) deliverMessages.simps) simp
    with True show ?thesis by (auto simp: Empty_def)
  next
    case False
    then obtain w ws m ms where l: "getWaitStatuses q = w # ws" "messages q = m # ms"
      by (auto simp: Empty_def neq_Nil_conv)
    from "1.prems" l obtain ch where
      ch: "chan_send 1 (msgCh (waitObjs q w)) m = Inr ch" and
      d: "deliverMessages (q\<lparr>getWaitStatuses := ws, messages := ms,
               waitObjs := (waitObjs q)(w := (waitObjs q w)\<lparr>msgCh := ch\<rparr>)\<rparr>) = Inr q'"
      by (auto simp: deliverMessages_step split: sum.splits)
    show ?thesis
      using "1.IH" [OF False, of "(w, ws)" w ws "(m, ms)" m ms ch] l ch d
      by (simp add: Pop_def)
  qed
qed

section \<open>The worker keeps its invariant and never stops on a fault\<close>

lemma qinv_new: "qinv (newQueueImpl n)"
  by (simp add: qinv_def newQueueImpl_def newGetWaitStatus_def)

lemma deliverMessages_first_waiter:
  assumes "getWaitStatuses q = w # ws" "messages q = [m]" "msgCh (waitObjs q w) = []"
  shows "deliverMessages q =
      Inr (q\<lparr>getWaitStatuses := ws, messages := [],
             waitObjs := (waitObjs q)(w := (waitObjs q w)\<lparr>msgCh := [m]\<rparr>)\<rparr>)"
  using assms by (simp add: deliverMessages_step chan_send_def deliverMessages_no_messages)

lemma deliverMessages_first_message:
  assumes "getWaitStatuses q = [w]" "messages q = m # ms" "msgCh (waitObjs q w) = []"
  shows "deliverMessages q =
      Inr (q\<lparr>getWaitStatuses := [], messages := ms,
             waitObjs := (waitObjs q)(w := (waitObjs q w)\<lparr>msgCh := [m]\<rparr>)\<rparr>)"
  using assms by (simp add: deliverMessages_step chan_send_def deliverMessages_no_waiters)

lemma onMessage_qinv:
  assumes "qinv q" and "confirmation newMsg = []"
  shows "\<exists>c q'. onMessage newMsg q = Inr (c, q') \<and> qinv q' \<and> maxMessageNum q' = maxMessageNum q
     \<and> confirmation c \<noteq> [] \<and> Len (messages q') \<le> max (Len (messages q)) (maxMessageNum q)"
proof (cases "Len (messages q) \<ge> maxMessageNum q")
  case True
  from assms(1) have "deliverMessages q = Inr q"
    by (auto simp: qinv_def deliverMessages_no_messages deliverMessages_no_waiters)
  with True assms show ?thesis
    by (simp add: onMessage_def chan_send_def)
next
  case False
  let ?q1 = "q\<lparr>messages := Push (message newMsg) (messages q)\<rparr>"
  show ?thesis
  proof (cases "getWaitStatuses q")
    case Nil
    then have "deliverMessages ?q1 = Inr ?q1" by (simp add: deliverMessages_no_waiters)
    with False assms Nil show ?thesis
      by (simp add: onMessage_def chan_send_def qinv_def Len_def Push_def)
  next
    case (Cons w ws)
    with assms(1) have m: "messages q = []" and e: "msgCh (waitObjs q w) = []"
      by (auto simp: qinv_def)
    have "deliverMessages ?q1 = Inr (?q1\<lparr>getWaitStatuses := ws, messages := [],
             waitObjs := (waitObjs ?q1)(w := (waitObjs ?q1 w)\<lparr>msgCh := [message newMsg]\<rparr>)\<rparr>)"
      by (rule deliverMessages_first_waiter) (use Cons m e in \<open>simp_all add: Push_def\<close>)
    with False assms Cons show ?thesis
      by (auto simp: onMessage_def chan_send_def qinv_def Len_def)
  qed
qed



lemma Get_send_qinv:
  assumes "qinv q"
  shows "\<exists>q'. Get_send q = Inr (nextObj q, q') \<and> qinv q'
     \<and> maxMessageNum q' = maxMessageNum q \<and> length (messages q') \<le> length (messages q)"
proof -
  let ?w = "nextObj q"
  let ?q1 = "q\<lparr>waitObjs := (waitObjs q)(?w := newGetWaitStatus), nextObj := Suc ?w\<rparr>"
  let ?q2 = "?q1\<lparr>getWaitStatuses := Push ?w (getWaitStatuses q),
                waitObjs := (waitObjs ?q1)(?w := (waitObjs ?q1 ?w)\<lparr>createdElemCh := [?w]\<rparr>)\<rparr>"
  have fresh: "?w \<notin> set (getWaitStatuses q)" using assms by (auto simp: qinv_def)
  have ow: "onWaitStatus ?w ?q1 = deliverMessages ?q2"
    by (simp add: onWaitStatus_def chan_send_def newGetWaitStatus_def Let_def)
  have gs: "Get_send q = (case deliverMessages ?q2 of Inl f \<Rightarrow> Inl f | Inr q' \<Rightarrow> Inr (?w, q'))"
    unfolding Get_send_def Let_def ow ..
  show ?thesis
  proof (cases "messages q")
    case Nil
    then have d: "deliverMessages ?q2 = Inr ?q2" by (simp add: deliverMessages_no_messages)
    have "qinv ?q2"
      unfolding qinv_def
    proof (intro conjI)
      show "messages ?q2 = [] \<or> getWaitStatuses ?q2 = []" using Nil by simp
      show "distinct (getWaitStatuses ?q2)" using assms fresh by (simp add: qinv_def Push_def)
      show "\<forall>w\<in>set (getWaitStatuses ?q2). w < nextObj ?q2 \<and> msgCh (waitObjs ?q2 w) = []"
        using assms by (auto simp: qinv_def Push_def newGetWaitStatus_def)
      show "\<forall>w. createdElemCh (waitObjs ?q2 w) \<noteq> [] \<longrightarrow>
            createdElemCh (waitObjs ?q2 w) = [w] \<and> errCh (waitObjs ?q2 w) = []"
        using assms by (simp add: qinv_def newGetWaitStatus_def)
    qed
    with gs d show ?thesis by simp
  next
    case (Cons m ms)
    with assms have nw: "getWaitStatuses q = []" by (auto simp: qinv_def)
    let ?q3 = "?q2\<lparr>getWaitStatuses := [], messages := ms,
             waitObjs := (waitObjs ?q2)(?w := (waitObjs ?q2 ?w)\<lparr>msgCh := [m]\<rparr>)\<rparr>"
    have d: "deliverMessages ?q2 = Inr ?q3"
      by (rule deliverMessages_first_message)
         (use Cons nw in \<open>simp_all add: Push_def newGetWaitStatus_def\<close>)
    have "qinv ?q3"
      unfolding qinv_def
    proof (intro conjI)
      show "messages ?q3 = [] \<or> getWaitStatuses ?q3 = []" by simp
      show "distinct (getWaitStatuses ?q3)" by simp
      show "\<forall>w\<in>set (getWaitStatuses ?q3). w < nextObj ?q3 \<and> msgCh (waitObjs ?q3 w) = []"
        by simp
      show "\<forall>w. createdElemCh (waitObjs ?q3 w) \<noteq> [] \<longrightarrow>
            createdElemCh (waitObjs ?q3 w) = [w] \<and> errCh (waitObjs ?q3 w) = []"
        using assms by (simp add: qinv_def newGetWaitStatus_def)
    qed
    with gs d Cons show ?thesis by simp
  qed
qed

lemma Get_expire_qinv:
  assumes "qinv q"
  shows "\<exists>q'. Get_expire ws q = Inr q' \<and> qinv q' \<and> maxMessageNum q' = maxMessageNum q
     \<and> messages q' = messages q"
proof (cases "createdElemCh (waitObjs q ws)")
  case Nil
  with assms show ?thesis by (simp add: Get_expire_def)
next
  case (Cons e rest)
  with assms have c: "createdElemCh (waitObjs q ws) = [ws]" and er: "errCh (waitObjs q ws) = []"
    by (auto simp: qinv_def)
  let ?q' = "q\<lparr>waitObjs := (waitObjs q)
                 (ws := (waitObjs q ws)\<lparr>createdElemCh := [], errCh := [ErrNoMessage]\<rparr>),
               getWaitStatuses := remove1 ws (getWaitStatuses q)\<rparr>"
  have ge: "Get_expire ws q = Inr ?q'"
    using c er by (simp add: Get_expire_def onExpired_def chan_send_def Let_def)
  have "qinv ?q'"
    unfolding qinv_def
  proof (intro conjI)
    show "messages ?q' = [] \<or> getWaitStatuses ?q' = []" using assms by (auto simp: qinv_def)
    show "distinct (getWaitStatuses ?q')" using assms by (simp add: qinv_def)
    show "\<forall>w\<in>set (getWaitStatuses ?q'). w < nextObj ?q' \<and> msgCh (waitObjs ?q' w) = []"
      using assms by (auto simp: qinv_def)
    show "\<forall>w. createdElemCh (waitObjs ?q' w) \<noteq> [] \<longrightarrow>
            createdElemCh (waitObjs ?q' w) = [w] \<and> errCh (waitObjs ?q' w) = []"
      using assms by (simp add: qinv_def)
  qed
  with ge show ?thesis by simp
qed

lemma onMessage_one_empty:
  "onMessage newMsg q = Inr (c, q') \<Longrightarrow> messages q' = [] \<or> getWaitStatuses q' = []"
  by (auto simp: onMessage_def Let_def split: if_splits sum.splits
           dest: deliverMessages_one_empty)

lemma onWaitStatus_one_empty:
  "onWaitStatus w q = Inr q' \<Longrightarrow> messages q' = [] \<or> getWaitStatuses q' = []"
  by (auto simp: onWaitStatus_def Let_def split: sum.splits dest: deliverMessages_one_empty)

lemma onExpired_one_empty:
  "onExpired e q = Inr q' \<Longrightarrow> messages q = [] \<or> getWaitStatuses q = [] \<Longrightarrow>
   messages q' = [] \<or> getWaitStatuses q' = []"
  by (auto simp: onExpired_def Let_def split: sum.splits)

lemma dispatch_one_empty:
  "messages q = [] \<or> getWaitStatuses q = [] \<Longrightarrow> dispatch es q = Inr q' \<Longrightarrow>
   messages q' = [] \<or> getWaitStatuses q' = []"
proof (induction es q rule: dispatch.induct)
  case (1 q)
  then show ?case by simp
next
  case (2 es q)
  then show ?case by simp
next
  case (3 newMsg es q)
  from "3.prems"(2) obtain c q1 where o: "onMessage newMsg q = Inr (c, q1)"
    and d: "dispatch es q1 = Inr q'"
    by (auto split: sum.splits)
  from onMessage_one_empty [OF o] have "messages q1 = [] \<or> getWaitStatuses q1 = []" .
  with "3.IH" o d show ?case by simp
next
  case (4 w es q)
  from "4.prems"(2) obtain q1 where o: "onWaitStatus w q = Inr q1"
    and d: "dispatch es q1 = Inr q'"
    by (auto split: sum.splits)
  from onWaitStatus_one_empty [OF o] have "messages q1 = [] \<or> getWaitStatuses q1 = []" .
  with "4.IH" o d show ?case by simp
next
  case (5 e es q)
  from "5.prems"(2) obtain q1 where o: "onExpired e q = Inr q1"
    and d: "dispatch es q1 = Inr q'"
    by (auto split: sum.splits)
  from onExpired_one_empty [OF o "5.prems"(1)]
  have "messages q1 = [] \<or> getWaitStatuses q1 = []" .
  with "5.IH" o d show ?case by simp
qed

lemma deliverMessages_not_Panic: "deliverMessages q \<noteq> Inl Panic"
proof (induction q rule: deliverMessages.induct)
  case (1 q)
  show ?case
  proof (cases "Empty (getWaitStatuses q) \<or> Empty (messages q)")
    case True
    then show ?thesis by (subst deliverMessages.simps) simp
  next
    case False
    then obtain w ws m ms where l: "getWaitStatuses q = w # ws" "messages q = m # ms"
      by (auto simp: Empty_def neq_Nil_conv)
    show ?thesis
    proof (cases "chan_send 1 (msgCh (waitObjs q w)) m")
      case (Inl f)
      then have "f = Blocked" by (auto simp: chan_send_def split: if_splits)
      with Inl l show ?thesis by (simp add: deliverMessages_step)
    next
      case (Inr ch)
      have "deliverMessages (q\<lparr>getWaitStatuses := ws, messages := ms,
               waitObjs := (waitObjs q)(w := (waitObjs q w)\<lparr>msgCh := ch\<rparr>)\<rparr>) \<noteq> Inl Panic"
        using "1.IH" [OF False, of "(w, ws)" w ws "(m, ms)" m ms ch] l Inr
        by (simp add: Pop_def)
      with Inr l show ?thesis by (simp add: deliverMessages_step)
    qed
  qed
qed

lemma chan_send_not_Panic: "chan_send cap ch v \<noteq> Inl Panic"
  by (simp add: chan_send_def)

lemma onMessage_not_Panic: "onMessage newMsg q \<noteq> Inl Panic"
  by (auto simp: onMessage_def Let_def deliverMessages_not_Panic chan_send_not_Panic
           split: sum.splits if_splits)

lemma onWaitStatus_not_Panic: "onWaitStatus w q \<noteq> Inl Panic"
  by (auto simp: onWaitStatus_def Let_def deliverMessages_not_Panic chan_send_not_Panic
           split: sum.splits)

lemma onExpired_not_Panic: "onExpired e q \<noteq> Inl Panic"
  by (auto simp: onExpired_def Let_def chan_send_not_Panic split: sum.splits)

lemma dispatch_not_Panic: "dispatch es q \<noteq> Inl Panic"
  by (induction es q rule: dispatch.induct)
     (auto simp: onMessage_not_Panic onWaitStatus_not_Panic onExpired_not_Panic
           split: sum.splits)

lemma perform_qinv:
  assumes "qinv q"
  shows "\<exists>q'. perform a q = Inr q' \<and> qinv q' \<and> maxMessageNum q' = maxMessageNum q
     \<and> Len (messages q') \<le> max (Len (messages q)) (maxMessageNum q)"
proof (cases a)
  case (DoPut m)
  from onMessage_qinv [OF assms, of "newMessageWithConfirmation m"]
  obtain c q' where "onMessage (newMessageWithConfirmation m) q = Inr (c, q')" "qinv q'"
    "maxMessageNum q' = maxMessageNum q" "confirmation c \<noteq> []"
    "Len (messages q') \<le> max (Len (messages q)) (maxMessageNum q)"
    by (auto simp: newMessageWithConfirmation_def)
  with DoPut show ?thesis
    by (auto simp: queueImpl_Put_def split: list.splits)
next
  case DoGet
  with Get_send_qinv [OF assms] show ?thesis by (auto simp: Len_def)
next
  case (DoCtxDone ws)
  with Get_expire_qinv [OF assms, of ws] show ?thesis by auto
qed

lemma run_qinv:
  assumes "qinv q"
  shows "\<exists>q'. run acts q = Inr q' \<and> qinv q' \<and> maxMessageNum q' = maxMessageNum q
     \<and> Len (messages q') \<le> max (Len (messages q)) (maxMessageNum q)"
  using assms
proof (induction acts arbitrary: q)
  case Nil
  then show ?case by simp
next
  case (Cons a acts)
  from perform_qinv [OF Cons.prems, of a] obtain q1 where
    p: "perform a q = Inr q1" "qinv q1" "maxMessageNum q1 = maxMessageNum q"
       "Len (messages q1) \<le> max (Len (messages q)) (maxMessageNum q)"
    by blast
  from Cons.IH [OF p(2)] obtain q' where
    r: "run acts q1 = Inr q'" "qinv q'" "maxMessageNum q' = maxMessageNum q1"
       "Len (messages q') \<le> max (Len (messages q1)) (maxMessageNum q1)"
    by blast
  from p r show ?case by auto
qed

lemma run_new:
  "\<exists>q'. run acts (newQueueImpl n) = Inr q' \<and> qinv q' \<and> maxMessageNum q' = n
     \<and> Len (messages q') \<le> max 0 n"
  using run_qinv [OF qinv_new, of acts n] by (simp add: newQueueImpl_def Len_def)

section \<open>One caller at a time\<close>

lemma Put_no_waiters:
  assumes "getWaitStatuses q = []"
  shows "queueImpl_Put m q =
     (if Len (messages q) \<ge> maxMessageNum q then Inr (Some ErrTooManyItems, q)
      else Inr (None, q\<lparr>messages := messages q @ [m]\<rparr>))"
  using assms
  by (simp add: queueImpl_Put_def onMessage_def newMessageWithConfirmation_def chan_send_def
        Push_def deliverMessages_no_waiters)


lemma Puts_room:
  assumes "getWaitStatuses q = []" and "Len (messages q) + int (length ms) \<le> maxMessageNum q"
  shows "Puts ms q = Inr (replicate (length ms) None, q\<lparr>messages := messages q @ ms\<rparr>)"
  using assms
proof (induction ms arbitrary: q)
  case Nil
  then show ?case by simp
next
  case (Cons m ms)
  let ?q' = "q\<lparr>messages := messages q @ [m]\<rparr>"
  from Cons.prems have p: "queueImpl_Put m q = Inr (None, ?q')"
    by (simp add: Put_no_waiters Len_def)
  have "Puts ms ?q' = Inr (replicate (length ms) None, ?q'\<lparr>messages := messages ?q' @ ms\<rparr>)"
    by (rule Cons.IH) (use Cons.prems in \<open>simp_all add: Len_def\<close>)
  with p show ?case by simp
qed



lemma Get_expire_lists:
  assumes "Get_expire ws q = Inr q'"
  shows "messages q' = messages q \<and> maxMessageNum q' = maxMessageNum q \<and>
         getWaitStatuses q' = (if createdElemCh (waitObjs q ws) = [] then getWaitStatuses q
            else remove1 (hd (createdElemCh (waitObjs q ws))) (getWaitStatuses q))"
  using assms
  by (auto simp: Get_expire_def onExpired_def Let_def split: list.splits sum.splits)





section \<open>The claims about the queue engine\<close>

text \<open>
  C9. The delivery loop never pops an empty list. \<open>Pop\<close> is the only place of the
  worker that can panic; neither the loop, from any state whatever, nor the worker on
  any sequence of events from any state, ends in that panic.
\<close>

theorem C9_delivery_never_pops_empty:
  "deliverMessages q \<noteq> Inl Panic \<and> dispatch es q \<noteq> Inl Panic"
  by (simp add: deliverMessages_not_Panic dispatch_not_Panic)

text \<open>
  C5. After the worker has handled an event, the backlog and the waiter list are not
  both non-empty. A new message and a new waiter are followed by the delivery loop,
  which leaves one list empty whatever the state before; an expiry only removes a
  waiter, so it keeps the property. Hence from a state with the property the worker
  reaches only states with it, on every sequence of events; and every use of a new
  queue by its callers gets through to such a state.
\<close>

theorem C5_backlog_and_waiters_not_both:
  "(\<forall>newMsg c q'. onMessage newMsg q = Inr (c, q') \<longrightarrow>
        messages q' = [] \<or> getWaitStatuses q' = []) \<and>
   (\<forall>w q'. onWaitStatus w q = Inr q' \<longrightarrow> messages q' = [] \<or> getWaitStatuses q' = []) \<and>
   (\<forall>es q'. (messages q = [] \<or> getWaitStatuses q = []) \<and> dispatch es q = Inr q' \<longrightarrow>
        messages q' = [] \<or> getWaitStatuses q' = []) \<and>
   (\<exists>q'. run acts (newQueueImpl n) = Inr q' \<and>
        (messages q' = [] \<or> getWaitStatuses q' = []))"
proof (intro conjI allI impI)
  fix newMsg c q'
  assume "onMessage newMsg q = Inr (c, q')"
  then show "messages q' = [] \<or> getWaitStatuses q' = []" by (rule onMessage_one_empty)
next
  fix w q'
  assume "onWaitStatus w q = Inr q'"
  then show "messages q' = [] \<or> getWaitStatuses q' = []" by (rule onWaitStatus_one_empty)
next
  fix es q'
  assume "(messages q = [] \<or> getWaitStatuses q = []) \<and> dispatch es q = Inr q'"
  then show "messages q' = [] \<or> getWaitStatuses q' = []"
    using dispatch_one_empty by blast
next
  from run_new [of acts n] obtain q' where "run acts (newQueueImpl n) = Inr q'" "qinv q'"
    by blast
  then show "\<exists>q'. run acts (newQueueImpl n) = Inr q' \<and>
        (messages q' = [] \<or> getWaitStatuses q' = [])"
    by (auto simp: qinv_def)
qed

theorem C5_witness:
  "(messages (newQueueImpl 1) = [] \<or> getWaitStatuses (newQueueImpl 1) = []) \<and>
   dispatch [NewMsg (newMessageWithConfirmation ''m''), NewWaitStatus 0, ExpiredElem 0]
     (newQueueImpl 1)
   = Inr ((newQueueImpl 1)\<lparr>waitObjs := (waitObjs (newQueueImpl 1))
            (0 := \<lparr>msgCh = [''m''], createdElemCh = [0], errCh = [ErrNoMessage]\<rparr>)\<rparr>) \<and>
   (messages ((newQueueImpl 1)\<lparr>waitObjs := (waitObjs (newQueueImpl 1))
            (0 := \<lparr>msgCh = [''m''], createdElemCh = [0], errCh = [ErrNoMessage]\<rparr>)\<rparr>) = [] \<or>
    getWaitStatuses ((newQueueImpl 1)\<lparr>waitObjs := (waitObjs (newQueueImpl 1))
            (0 := \<lparr>msgCh = [''m''], createdElemCh = [0], errCh = [ErrNoMessage]\<rparr>)\<rparr>) = [])"
proof -
  have d: "dispatch [NewMsg (newMessageWithConfirmation ''m''), NewWaitStatus 0, ExpiredElem 0]
     (newQueueImpl 1)
   = Inr ((newQueueImpl 1)\<lparr>waitObjs := (waitObjs (newQueueImpl 1))
            (0 := \<lparr>msgCh = [''m''], createdElemCh = [0], errCh = [ErrNoMessage]\<rparr>)\<rparr>)"
    by (simp add: newQueueImpl_def newMessageWithConfirmation_def newGetWaitStatus_def
          onMessage_def onWaitStatus_def onExpired_def chan_send_def Len_def Push_def
          deliverMessages_no_waiters deliverMessages_first_message Let_def)
  have h: "messages (newQueueImpl 1) = [] \<or> getWaitStatuses (newQueueImpl 1) = []"
    by (simp add: newQueueImpl_def)
  from C5_backlog_and_waiters_not_both [of "newQueueImpl 1" "[]" 1] h d
  show ?thesis by blast
qed




text \<open>
  C2. Capacity. On a new queue of capacity \<open>n\<close>, \<open>n\<close> puts are all accepted and leave
  the backlog holding the messages in order; the next \<^verbatim>\<open>Put\<close> returns
  \<^verbatim>\<open>ErrTooManyItems\<close> and leaves the queue as it was; and whatever callers do with a
  new queue of capacity \<open>n\<close>, the worker gets through and the backlog never holds more
  than \<open>n\<close> messages.
\<close>

theorem C2_capacity:
  assumes "int (length ms) = n"
  shows "Puts ms (newQueueImpl n) =
           Inr (replicate (length ms) None, (newQueueImpl n)\<lparr>messages := ms\<rparr>) \<and>
         queueImpl_Put m ((newQueueImpl n)\<lparr>messages := ms\<rparr>) =
           Inr (Some ErrTooManyItems, (newQueueImpl n)\<lparr>messages := ms\<rparr>) \<and>
         (\<exists>q'. run acts (newQueueImpl n) = Inr q' \<and> Len (messages q') \<le> n)"
proof (intro conjI)
  have "Puts ms (newQueueImpl n) = Inr (replicate (length ms) None,
      (newQueueImpl n)\<lparr>messages := messages (newQueueImpl n) @ ms\<rparr>)"
    by (rule Puts_room) (use assms in \<open>simp_all add: newQueueImpl_def Len_def\<close>)
  then show "Puts ms (newQueueImpl n) =
           Inr (replicate (length ms) None, (newQueueImpl n)\<lparr>messages := ms\<rparr>)"
    by (simp add: newQueueImpl_def)
  show "queueImpl_Put m ((newQueueImpl n)\<lparr>messages := ms\<rparr>) =
           Inr (Some ErrTooManyItems, (newQueueImpl n)\<lparr>messages := ms\<rparr>)"
    using assms by (simp add: Put_no_waiters newQueueImpl_def Len_def)
  from run_new [of acts n] assms
  show "\<exists>q'. run acts (newQueueImpl n) = Inr q' \<and> Len (messages q') \<le> n"
    by auto
qed

theorem C2_witness:
  "int (length [''a'', ''b'']) = 2 \<and>
   Puts [''a'', ''b''] (newQueueImpl 2) =
     Inr (replicate (length [''a'', ''b'']) None, (newQueueImpl 2)\<lparr>messages := [''a'', ''b'']\<rparr>) \<and>
   queueImpl_Put ''c'' ((newQueueImpl 2)\<lparr>messages := [''a'', ''b'']\<rparr>) =
     Inr (Some ErrTooManyItems, (newQueueImpl 2)\<lparr>messages := [''a'', ''b'']\<rparr>) \<and>
   (\<exists>q'. run [DoGet, DoPut ''a'', DoCtxDone 0] (newQueueImpl 2) = Inr q' \<and>
      Len (messages q') \<le> 2)"
  using C2_capacity [of "[''a'', ''b'']" 2 "''c''" "[DoGet, DoPut ''a'', DoCtxDone 0]"]
  by simp

end
